theory Spec2Isabelle
  imports Complex_Main "HOL-Library.Word" "HOL-Library.Sublist"
begin

section \<open>Machine integers of \<^verbatim>\<open>attention_common.h\<close>\<close>

text \<open>
  The header computes with \<^verbatim>\<open>int\<close> (32 bits, two's complement) and \<^verbatim>\<open>size_t\<close>
  (64 bits, unsigned). Signed overflow is undefined behaviour in C++; the model takes the
  wrap-around that the compiled code produces, so \<open>*\<close> on \<open>32 word\<close> is the \<^verbatim>\<open>int\<close>
  product and \<open>sint\<close> reads the value. An \<^verbatim>\<open>int\<close> operand of a \<^verbatim>\<open>size_t\<close> operation is
  converted by sign extension (\<open>scast\<close>).
\<close>

type_synonym c_int = "32 word"
type_synonym size_t = "64 word"

definition MAX_SEQ_LEN :: int where
  "MAX_SEQ_LEN = 4096"

definition MAX_HEAD_DIM :: int where
  "MAX_HEAD_DIM = 128"

definition sizeof_float :: size_t where
  "sizeof_float = 4"

section \<open>Single-precision operations\<close>

text \<open>
  The header's \<^verbatim>\<open>float\<close> computations are kept abstract: every function below takes the
  floating-point unit as a record of the operations the header uses, over a type \<open>'f\<close> of
  float values. A theorem stated for every such record holds for whatever arithmetic the
  compiled code runs (IEEE 754 binary32, or its relaxation under \<^verbatim>\<open>-ffast-math\<close>).
  \<^item> \<open>f_of_int\<close>: conversion of an integer value (\<^verbatim>\<open>static_cast<float>\<close>, and the implicit
    conversions of \<^verbatim>\<open>int\<close> and \<^verbatim>\<open>size_t\<close> operands);
  \<^item> \<open>f_lit\<close>: a decimal literal such as \<^verbatim>\<open>1e6f\<close>;
  \<^item> \<open>f_mul\<close>, \<open>f_div\<close>, \<open>f_sub\<close>: \<^verbatim>\<open>*\<close>, \<^verbatim>\<open>/\<close>, \<^verbatim>\<open>-\<close>;
  \<^item> \<open>f_sqrt\<close>, \<open>f_abs\<close>: \<^verbatim>\<open>sqrtf\<close>, \<^verbatim>\<open>fabsf\<close>;
  \<^item> \<open>f_lt\<close>: \<^verbatim>\<open><\<close> (and \<^verbatim>\<open>a > b\<close> is \<open>f_lt b a\<close>);
  \<^item> \<open>f_fmt p\<close>: the text \<^verbatim>\<open>printf\<close> writes for \<^verbatim>\<open>%.pf\<close>.
\<close>

record 'f float_ops =
  f_of_int :: "int \<Rightarrow> 'f"
  f_lit :: "rat \<Rightarrow> 'f"
  f_mul :: "'f \<Rightarrow> 'f \<Rightarrow> 'f"
  f_div :: "'f \<Rightarrow> 'f \<Rightarrow> 'f"
  f_sub :: "'f \<Rightarrow> 'f \<Rightarrow> 'f"
  f_sqrt :: "'f \<Rightarrow> 'f"
  f_abs :: "'f \<Rightarrow> 'f"
  f_lt :: "'f \<Rightarrow> 'f \<Rightarrow> bool"
  f_fmt :: "nat \<Rightarrow> 'f \<Rightarrow> string"

section \<open>The workload descriptor\<close>

record 'f AttentionConfig =
  batch_size :: c_int
  num_heads :: c_int
  seq_len :: c_int
  head_dim :: c_int
  scale :: 'f

text \<open>
  The constructor \<^verbatim>\<open>AttentionConfig(int b, int h, int s, int d)\<close>: the member initialisers
  copy the four arguments, the body derives \<open>scale\<close>. It has no other statement: no check,
  no \<^verbatim>\<open>throw\<close>, no \<^verbatim>\<open>exit\<close>.
\<close>

definition AttentionConfig :: "'f float_ops \<Rightarrow> c_int \<Rightarrow> c_int \<Rightarrow> c_int \<Rightarrow> c_int \<Rightarrow> 'f AttentionConfig" where
  "AttentionConfig fp b h s d =
     \<lparr>batch_size = b, num_heads = h, seq_len = s, head_dim = d,
      scale = f_div fp (f_lit fp 1) (f_sqrt fp (f_of_int fp (sint d)))\<rparr>"

definition qkv_size :: "'f AttentionConfig \<Rightarrow> size_t" where
  "qkv_size cfg =
     scast (batch_size cfg * num_heads cfg * seq_len cfg * head_dim cfg) * sizeof_float"

definition output_size :: "'f AttentionConfig \<Rightarrow> size_t" where
  "output_size cfg = qkv_size cfg"

definition attention_matrix_size :: "'f AttentionConfig \<Rightarrow> size_t" where
  "attention_matrix_size cfg =
     scast (batch_size cfg * num_heads cfg * seq_len cfg * seq_len cfg) * sizeof_float"

section \<open>Text output\<close>

text \<open>
  \<^verbatim>\<open>printf\<close> and \<^verbatim>\<open>fprintf\<close> are modelled by the text they write. \<open>digits\<close> is the
  decimal numeral of a non-negative integer (\<^verbatim>\<open>%zu\<close>, and the digit groups of \<^verbatim>\<open>%.pf\<close>).
\<close>

function digits :: "int \<Rightarrow> string" where
  "digits n =
     (if n < 10 then [char_of (48 + n)] else digits (n div 10) @ [char_of (48 + n mod 10)])"
  by pat_completeness auto
termination
  by (relation "measure nat") auto

declare digits.simps [simp del]

section \<open>Comparing two buffers\<close>

text \<open>
  \<^verbatim>\<open>verify_results(ref, test, n, tol)\<close> walks both buffers from index 0. The buffers are
  lists; reading an index that a buffer does not have is undefined behaviour in C and is
  the result \<open>None\<close> here. Otherwise the result is the returned \<^verbatim>\<open>bool\<close> together with the
  text written to \<^verbatim>\<open>stderr\<close>. \<open>verify_loop\<close> is the \<^verbatim>\<open>for\<close> loop from index \<open>i\<close> on.
\<close>

definition mismatch_message :: "'f float_ops \<Rightarrow> nat \<Rightarrow> 'f \<Rightarrow> 'f \<Rightarrow> 'f \<Rightarrow> string" where
  "mismatch_message fp i r t diff =
     ''Mismatch at '' @ digits (int i) @ '': ref='' @ f_fmt fp 6 r @ '', test='' @ f_fmt fp 6 t
       @ '', diff='' @ f_fmt fp 6 diff @ ''\<newline>''"

function verify_loop ::
  "'f float_ops \<Rightarrow> 'f list \<Rightarrow> 'f list \<Rightarrow> nat \<Rightarrow> 'f \<Rightarrow> nat \<Rightarrow> (bool \<times> string) option" where
  "verify_loop fp ref test n tol i =
     (if i < n then
        (if i < length ref \<and> i < length test then
           (let diff = f_abs fp (f_sub fp (ref ! i) (test ! i))
            in if f_lt fp tol diff
               then Some (False, mismatch_message fp i (ref ! i) (test ! i) diff)
               else verify_loop fp ref test n tol (i + 1))
         else None)
      else Some (True, []))"
  by pat_completeness auto
termination
  by (relation "measure (\<lambda>(fp, ref, test, n, tol, i). n - i)") auto

declare verify_loop.simps [simp del]

definition verify_results ::
  "'f float_ops \<Rightarrow> 'f list \<Rightarrow> 'f list \<Rightarrow> nat \<Rightarrow> 'f \<Rightarrow> (bool \<times> string) option" where
  "verify_results fp ref test n tol = verify_loop fp ref test n tol 0"

text \<open>The default argument \<^verbatim>\<open>tol = 1e-3f\<close>.\<close>

definition verify_results_default ::
  "'f float_ops \<Rightarrow> 'f list \<Rightarrow> 'f list \<Rightarrow> nat \<Rightarrow> (bool \<times> string) option" where
  "verify_results_default fp ref test n = verify_results fp ref test n (f_lit fp (1 / 1000))"

section \<open>Filling a buffer with random numbers\<close>

text \<open>
  \<^verbatim>\<open>init_random(data, n, seed)\<close> calls \<^verbatim>\<open>srand(seed)\<close> and then writes
  \<^verbatim>\<open>(rand() / (float)RAND_MAX - 0.5f) * 0.1f\<close> to \<open>data[0]\<close>, ..., \<open>data[n - 1]\<close>. The
  generator is the C library's, not this repository's: it is a parameter, a record of
  \<^verbatim>\<open>srand\<close> (the state a seed sets), \<^verbatim>\<open>rand\<close> (a value and the next state) and
  \<^verbatim>\<open>RAND_MAX\<close>. The memory a call works on is the buffer and the generator's state;
  \<open>init_loop\<close> is the \<^verbatim>\<open>for\<close> loop from index \<open>i\<close> on, and writing past the buffer is the
  result \<open>None\<close>. \<open>draws lib k st\<close> are the values of \<open>k\<close> successive calls of \<^verbatim>\<open>rand\<close>
  from state \<open>st\<close>, with the state they leave.
\<close>

record 'st c_random =
  c_srand :: "32 word \<Rightarrow> 'st"
  c_rand :: "'st \<Rightarrow> int \<times> 'st"
  c_RAND_MAX :: int

definition random_element :: "'f float_ops \<Rightarrow> int \<Rightarrow> int \<Rightarrow> 'f" where
  "random_element fp rand_max r =
     f_mul fp (f_sub fp (f_div fp (f_of_int fp r) (f_of_int fp rand_max)) (f_lit fp (1 / 2)))
       (f_lit fp (1 / 10))"

function init_loop ::
  "'f float_ops \<Rightarrow> 'st c_random \<Rightarrow> nat \<Rightarrow> nat \<Rightarrow> 'f list \<times> 'st \<Rightarrow> ('f list \<times> 'st) option" where
  "init_loop fp lib n i (data, st) =
     (if i < n then
        (if i < length data then
           (case c_rand lib st of
              (r, st') \<Rightarrow>
                init_loop fp lib n (i + 1) (data[i := random_element fp (c_RAND_MAX lib) r], st'))
         else None)
      else Some (data, st))"
  by pat_completeness auto
termination
  by (relation "measure (\<lambda>(fp, lib, n, i, mem). n - i)") auto

declare init_loop.simps [simp del]

definition init_random ::
  "'f float_ops \<Rightarrow> 'st c_random \<Rightarrow> 'f list \<times> 'st \<Rightarrow> nat \<Rightarrow> 32 word \<Rightarrow> ('f list \<times> 'st) option" where
  "init_random fp lib mem n seed = init_loop fp lib n 0 (fst mem, c_srand lib seed)"

fun draws :: "'st c_random \<Rightarrow> nat \<Rightarrow> 'st \<Rightarrow> int list \<times> 'st" where
  "draws lib 0 st = ([], st)"
| "draws lib (Suc k) st =
     (case c_rand lib st of (r, st') \<Rightarrow> (case draws lib k st' of (rs, st'') \<Rightarrow> (r # rs, st'')))"

text \<open>The default argument \<^verbatim>\<open>seed = 42\<close>.\<close>

definition init_random_default ::
  "'f float_ops \<Rightarrow> 'st c_random \<Rightarrow> 'f list \<times> 'st \<Rightarrow> nat \<Rightarrow> ('f list \<times> 'st) option" where
  "init_random_default fp lib mem n = init_random fp lib mem n 42"

section \<open>Printing statistics\<close>

text \<open>
  The five local variables of \<^verbatim>\<open>print_stats\<close>, then the text of its six \<^verbatim>\<open>printf\<close> calls.
  In \<open>flops\<close> every \<^verbatim>\<open>int\<close> field is converted to \<^verbatim>\<open>float\<close> and the product is taken from
  the left in \<^verbatim>\<open>float\<close>; in \<open>bytes\<close> the sum is taken in \<^verbatim>\<open>size_t\<close> and then converted.
\<close>

definition flops :: "'f float_ops \<Rightarrow> 'f AttentionConfig \<Rightarrow> 'f" where
  "flops fp cfg =
     f_mul fp (f_mul fp (f_mul fp (f_mul fp (f_mul fp (f_lit fp 2)
       (f_of_int fp (sint (batch_size cfg))))
       (f_of_int fp (sint (num_heads cfg))))
       (f_of_int fp (sint (seq_len cfg))))
       (f_of_int fp (sint (seq_len cfg))))
       (f_of_int fp (sint (head_dim cfg)))"

definition bytes :: "'f float_ops \<Rightarrow> 'f AttentionConfig \<Rightarrow> 'f" where
  "bytes fp cfg = f_of_int fp (uint (qkv_size cfg * 3 + output_size cfg))"

definition gflops :: "'f float_ops \<Rightarrow> 'f \<Rightarrow> 'f AttentionConfig \<Rightarrow> 'f" where
  "gflops fp time_ms cfg = f_div fp (flops fp cfg) (f_mul fp time_ms (f_lit fp 1000000))"

definition bandwidth_gb :: "'f float_ops \<Rightarrow> 'f \<Rightarrow> 'f AttentionConfig \<Rightarrow> 'f" where
  "bandwidth_gb fp time_ms cfg = f_div fp (bytes fp cfg) (f_mul fp time_ms (f_lit fp 1000000))"

definition arithmetic_intensity :: "'f float_ops \<Rightarrow> 'f AttentionConfig \<Rightarrow> 'f" where
  "arithmetic_intensity fp cfg = f_div fp (flops fp cfg) (bytes fp cfg)"

definition print_stats :: "'f float_ops \<Rightarrow> string \<Rightarrow> 'f \<Rightarrow> 'f AttentionConfig \<Rightarrow> string" where
  "print_stats fp name time_ms cfg =
     (''\<newline>=== '' @ name @ '' ===\<newline>'')
     @ (''Time: '' @ f_fmt fp 3 time_ms @ '' ms\<newline>'')
     @ (''GFLOPS: '' @ f_fmt fp 2 (gflops fp time_ms cfg) @ ''\<newline>'')
     @ (''Bandwidth: '' @ f_fmt fp 2 (bandwidth_gb fp time_ms cfg) @ '' GB/s\<newline>'')
     @ (''Arithmetic Intensity: '' @ f_fmt fp 2 (arithmetic_intensity fp cfg)
          @ '' FLOP/Byte\<newline>'')
     @ (''Memory-bound: ''
          @ (if f_lt fp (arithmetic_intensity fp cfg) (f_of_int fp 10) then ''YES'' else ''NO'')
          @ ''\<newline>'')"

section \<open>IEEE 754 binary32, for evaluation\<close>

text \<open>
  A concrete floating-point unit: the one the definitions are run on for explicit inputs,
  and the one a statement about the value of a result is made in. A value is a NaN, an
  infinity with its sign, or a finite number given by its sign bit (\<open>True\<close> is negative)
  and its magnitude, a rational; both zeros exist. Every operation computes the exact
  result and rounds it to the nearest representable value, ties to even (24-bit
  significand, least exponent \<open>-126\<close>, overflow to infinity from \<open>2 ^ 128\<close>).
\<close>

datatype float32 = NaN | Infinity bool | Finite bool rat

function bit_length :: "int \<Rightarrow> int" where
  "bit_length n = (if n \<le> 0 then 0 else 1 + bit_length (n div 2))"
  by pat_completeness auto
termination
  by (relation "measure nat") auto

declare bit_length.simps [simp del]

definition pow2 :: "int \<Rightarrow> rat" where
  "pow2 e = (if 0 \<le> e then 2 ^ nat e else 1 / 2 ^ nat (- e))"

text \<open>\<open>ilog2 q\<close> is the exponent \<open>e\<close> with \<open>2 ^ e \<le> q < 2 ^ (e + 1)\<close>, for \<open>q > 0\<close>.\<close>

definition ilog2 :: "rat \<Rightarrow> int" where
  "ilog2 q =
     (let (p, d) = quotient_of q; e0 = bit_length p - bit_length d
      in if pow2 e0 \<le> q then e0 else e0 - 1)"

definition round_half_even :: "rat \<Rightarrow> int" where
  "round_half_even x =
     (let f = \<lfloor>x\<rfloor>; r = x - of_int f
      in if r < 1 / 2 then f else if 1 / 2 < r then f + 1 else if even f then f else f + 1)"

definition round_mag :: "rat \<Rightarrow> rat" where
  "round_mag m =
     (if m = 0 then 0
      else let e = max (ilog2 m) (- 126); u = pow2 (e - 23)
           in of_int (round_half_even (m / u)) * u)"

definition pack :: "bool \<Rightarrow> rat \<Rightarrow> float32" where
  "pack s m = (let r = round_mag m in if 2 ^ 128 \<le> r then Infinity s else Finite s r)"

definition b32_of_rat :: "rat \<Rightarrow> float32" where
  "b32_of_rat q = pack (q < 0) \<bar>q\<bar>"

definition b32_of_int :: "int \<Rightarrow> float32" where
  "b32_of_int i = b32_of_rat (of_int i)"

fun b32_mul :: "float32 \<Rightarrow> float32 \<Rightarrow> float32" where
  "b32_mul NaN y = NaN"
| "b32_mul x NaN = NaN"
| "b32_mul (Infinity s) (Infinity t) = Infinity (s \<noteq> t)"
| "b32_mul (Infinity s) (Finite t m) = (if m = 0 then NaN else Infinity (s \<noteq> t))"
| "b32_mul (Finite s m) (Infinity t) = (if m = 0 then NaN else Infinity (s \<noteq> t))"
| "b32_mul (Finite s m) (Finite t k) = pack (s \<noteq> t) (m * k)"

fun b32_div :: "float32 \<Rightarrow> float32 \<Rightarrow> float32" where
  "b32_div NaN y = NaN"
| "b32_div x NaN = NaN"
| "b32_div (Infinity s) (Infinity t) = NaN"
| "b32_div (Infinity s) (Finite t m) = Infinity (s \<noteq> t)"
| "b32_div (Finite s m) (Infinity t) = Finite (s \<noteq> t) 0"
| "b32_div (Finite s m) (Finite t k) =
     (if k = 0 then (if m = 0 then NaN else Infinity (s \<noteq> t)) else pack (s \<noteq> t) (m / k))"

definition signed_val :: "bool \<Rightarrow> rat \<Rightarrow> rat" where
  "signed_val s m = (if s then - m else m)"

fun b32_add :: "float32 \<Rightarrow> float32 \<Rightarrow> float32" where
  "b32_add NaN y = NaN"
| "b32_add x NaN = NaN"
| "b32_add (Infinity s) (Infinity t) = (if s = t then Infinity s else NaN)"
| "b32_add (Infinity s) (Finite t m) = Infinity s"
| "b32_add (Finite s m) (Infinity t) = Infinity t"
| "b32_add (Finite s m) (Finite t k) =
     (let v = signed_val s m + signed_val t k
      in if v = 0 then Finite (s \<and> t) 0 else pack (v < 0) \<bar>v\<bar>)"

fun b32_neg :: "float32 \<Rightarrow> float32" where
  "b32_neg NaN = NaN"
| "b32_neg (Infinity s) = Infinity (\<not> s)"
| "b32_neg (Finite s m) = Finite (\<not> s) m"

definition b32_sub :: "float32 \<Rightarrow> float32 \<Rightarrow> float32" where
  "b32_sub x y = b32_add x (b32_neg y)"

fun b32_abs :: "float32 \<Rightarrow> float32" where
  "b32_abs NaN = NaN"
| "b32_abs (Infinity s) = Infinity False"
| "b32_abs (Finite s m) = Finite False m"

fun b32_lt :: "float32 \<Rightarrow> float32 \<Rightarrow> bool" where
  "b32_lt NaN y = False"
| "b32_lt x NaN = False"
| "b32_lt (Infinity s) (Infinity t) = (s \<and> \<not> t)"
| "b32_lt (Infinity s) (Finite t m) = s"
| "b32_lt (Finite s m) (Infinity t) = (\<not> t)"
| "b32_lt (Finite s m) (Finite t k) = (signed_val s m < signed_val t k)"

function isqrt :: "int \<Rightarrow> int" where
  "isqrt n =
     (if n < 2 then max n 0
      else let r = 2 * isqrt (n div 4) in if (r + 1) * (r + 1) \<le> n then r + 1 else r)"
  by pat_completeness auto
termination
  by (relation "measure nat") auto

declare isqrt.simps [simp del]

text \<open>
  The square root of a positive magnitude, correctly rounded: \<open>k\<close> is the integer part of
  the root in units of \<open>u\<close>, and the root is compared with \<open>k + 1/2\<close> through the squares.
\<close>

definition sqrt_mag :: "rat \<Rightarrow> rat" where
  "sqrt_mag m =
     (let e = ilog2 m div 2; u = pow2 (e - 23); t = m / (u * u);
          k = isqrt \<lfloor>t\<rfloor>; h = of_int k + 1 / 2
      in of_int (if t < h * h then k else if h * h < t then k + 1
                 else if even k then k else k + 1) * u)"

fun b32_sqrt :: "float32 \<Rightarrow> float32" where
  "b32_sqrt NaN = NaN"
| "b32_sqrt (Infinity s) = (if s then NaN else Infinity False)"
| "b32_sqrt (Finite s m) =
     (if m = 0 then Finite s 0 else if s then NaN else Finite False (sqrt_mag m))"

text \<open>
  \<^verbatim>\<open>%.pf\<close>: the magnitude is rounded to \<open>p\<close> decimals, ties to even on the exact value.
  The sign of a NaN is not part of this model.
\<close>

definition frac_digits :: "nat \<Rightarrow> int \<Rightarrow> string" where
  "frac_digits p n = (let ds = digits n in replicate (p - length ds) (CHR ''0'') @ ds)"

fun b32_fmt :: "nat \<Rightarrow> float32 \<Rightarrow> string" where
  "b32_fmt p NaN = ''nan''"
| "b32_fmt p (Infinity s) = (if s then ''-inf'' else ''inf'')"
| "b32_fmt p (Finite s m) =
     (let k = round_half_even (m * 10 ^ p)
      in (if s then ''-'' else []) @ digits (k div 10 ^ p)
           @ (if p = 0 then [] else ''.'' @ frac_digits p (k mod 10 ^ p)))"

definition ieee32 :: "float32 float_ops" where
  "ieee32 =
     \<lparr>f_of_int = b32_of_int, f_lit = b32_of_rat, f_mul = b32_mul, f_div = b32_div,
      f_sub = b32_sub, f_sqrt = b32_sqrt, f_abs = b32_abs, f_lt = b32_lt, f_fmt = b32_fmt\<rparr>"

section \<open>The GNU C library's generator, for evaluation\<close>

text \<open>
  A concrete C library, used to run \<open>init_random\<close> on explicit seeds: \<^verbatim>\<open>srand\<close> and \<^verbatim>\<open>rand\<close>
  of glibc (\<^verbatim>\<open>random_r.c\<close>, the additive feedback generator of degree 31 and separation 3).
  The state is the table of 31 words with the front and rear positions. \<^verbatim>\<open>srand\<close> fills
  the table by the multiplicative generator \<open>16807 * word mod 2147483647\<close> (Schrage's
  form, on C's truncating division), and discards 310 values. \<open>c_div\<close> and \<open>c_mod\<close> are
  C's \<^verbatim>\<open>/\<close> and \<^verbatim>\<open>%\<close>.
\<close>

definition c_div :: "int \<Rightarrow> int \<Rightarrow> int" where
  "c_div a b = (if (a < 0) = (b < 0) then \<bar>a\<bar> div \<bar>b\<bar> else - (\<bar>a\<bar> div \<bar>b\<bar>))"

definition c_mod :: "int \<Rightarrow> int \<Rightarrow> int" where
  "c_mod a b = a - b * c_div a b"

definition glibc_next_word :: "int \<Rightarrow> int" where
  "glibc_next_word word =
     (let hi = c_div word 127773; lo = c_mod word 127773; w = 16807 * lo - 2836 * hi
      in if w < 0 then w + 2147483647 else w)"

fun glibc_words :: "nat \<Rightarrow> int \<Rightarrow> int list" where
  "glibc_words 0 word = []"
| "glibc_words (Suc k) word = word # glibc_words k (glibc_next_word word)"

type_synonym glibc_state = "int list \<times> nat \<times> nat"

definition glibc_rand :: "glibc_state \<Rightarrow> int \<times> glibc_state" where
  "glibc_rand st =
     (case st of
        (state, f, r) \<Rightarrow>
          (let val = (state ! f + state ! r) mod 2 ^ 32;
               state' = state[f := val]
           in (val div 2,
               (state',
                if 31 \<le> f + 1 then 0 else f + 1,
                if 31 \<le> f + 1 then r + 1 else if 31 \<le> r + 1 then 0 else r + 1))))"

function glibc_discard :: "int \<Rightarrow> glibc_state \<Rightarrow> glibc_state" where
  "glibc_discard kc st = (if kc \<le> 0 then st else glibc_discard (kc - 1) (snd (glibc_rand st)))"
  by pat_completeness auto
termination
  by (relation "measure (\<lambda>(kc, st). nat kc)") auto

declare glibc_discard.simps [simp del]

definition glibc_srand :: "32 word \<Rightarrow> glibc_state" where
  "glibc_srand seed =
     (let s = (if seed = 0 then 1 else seed)
      in glibc_discard 310 (map (\<lambda>w. w mod 2 ^ 32) (glibc_words 31 (sint s)), 3, 0))"

definition glibc :: "glibc_state c_random" where
  "glibc = \<lparr>c_srand = glibc_srand, c_rand = glibc_rand, c_RAND_MAX = 2147483647\<rparr>"

section \<open>Byte sizes\<close>






text \<open>
  C4. The claim: for positive dimensions with \<open>seq_len \<le> 4096\<close> and \<open>head_dim \<le> 128\<close>,
  \<open>qkv_size\<close> and \<open>attention_matrix_size\<close> return the exact products
  \<open>batch * heads * seq_len * head_dim * 4\<close> and \<open>batch * heads * seq_len * seq_len * 4\<close>,
  with no intermediate overflow. The code multiplies the four fields in \<^verbatim>\<open>int\<close> and widens
  to \<^verbatim>\<open>size_t\<close> only for the factor \<^verbatim>\<open>sizeof(float)\<close>. For batch 8, 16 heads and sequence
  length 4096 (a row of the benchmark matrix of \<^verbatim>\<open>run_benchmarks.sh\<close>, whose memory filter
  lets it through) the \<^verbatim>\<open>int\<close> product is \<open>2 ^ 31\<close>, one more than \<^verbatim>\<open>INT_MAX\<close>; wrapped and
  sign-extended it gives \<open>2 ^ 64 - 2 ^ 33\<close> bytes instead of \<open>2 ^ 33\<close>.
\<close>

theorem attention_matrix_size_wraps:
  "uint (attention_matrix_size (AttentionConfig ieee32 8 16 4096 64)) = 2 ^ 64 - 2 ^ 33
   \<and> (8 * 16 * 4096 * 4096 * 4 :: int) = 2 ^ 33
   \<and> (2 ^ 31 - 1 :: int) < 8 * 16 * 4096 * 4096"
  by (simp add: attention_matrix_size_def AttentionConfig_def sizeof_float_def)

section \<open>The comparison loop\<close>

lemma verify_loop_pass:
  assumes "n \<le> length ref" "n \<le> length test"
    and "\<And>j. i \<le> j \<Longrightarrow> j < n \<Longrightarrow> \<not> f_lt fp tol (f_abs fp (f_sub fp (ref ! j) (test ! j)))"
  shows "verify_loop fp ref test n tol i = Some (True, [])"
  using assms
proof (induction "n - i" arbitrary: i)
  case 0
  then show ?case by (simp add: verify_loop.simps)
next
  case (Suc k)
  then have "i < n" by simp
  moreover have "\<not> f_lt fp tol (f_abs fp (f_sub fp (ref ! i) (test ! i)))"
    using Suc.prems \<open>i < n\<close> by simp
  moreover have "verify_loop fp ref test n tol (i + 1) = Some (True, [])"
    using Suc by (intro Suc.hyps) simp_all
  ultimately show ?case
    using Suc.prems by (subst verify_loop.simps) (simp add: Let_def)
qed




subsection \<open>NaN operands\<close>

lemma b32_sub_nan: "x = NaN \<or> y = NaN \<Longrightarrow> b32_sub x y = NaN"
  by (cases x; cases y) (auto simp: b32_sub_def)

lemma b32_lt_nan: "\<not> b32_lt t NaN"
  by (cases t) simp_all

text \<open>
  C9. Take the IEEE 754 rules for NaN as given: a difference with a NaN operand is a NaN,
  \<^verbatim>\<open>fabsf\<close> of a NaN is a NaN, and \<^verbatim>\<open>x > tol\<close> is false when \<open>x\<close> is a NaN. Then, for buffers
  that hold at least \<open>n\<close> elements, the comparison at an index where \<open>ref[i]\<close> or \<open>test[i]\<close>
  is a NaN never counts as a mismatch, and \<open>verify_results\<close> returns \<^verbatim>\<open>true\<close> (writing
  nothing) when every index below \<open>n\<close> has a NaN on either side, in particular on buffers
  of NaNs only.
\<close>

theorem verify_results_ignores_nan:
  assumes "\<And>x y. is_nan x \<or> is_nan y \<Longrightarrow> is_nan (f_sub fp x y)"
    and "\<And>x. is_nan x \<Longrightarrow> is_nan (f_abs fp x)"
    and "\<And>x t. is_nan x \<Longrightarrow> \<not> f_lt fp t x"
    and "n \<le> length ref" and "n \<le> length test"
  shows "(\<forall>i<n. is_nan (ref ! i) \<or> is_nan (test ! i)
            \<longrightarrow> \<not> f_lt fp tol (f_abs fp (f_sub fp (ref ! i) (test ! i))))
       \<and> ((\<forall>i<n. is_nan (ref ! i) \<or> is_nan (test ! i))
            \<longrightarrow> verify_results fp ref test n tol = Some (True, []))"
proof -
  have skip: "\<not> f_lt fp tol (f_abs fp (f_sub fp (ref ! i) (test ! i)))"
    if "is_nan (ref ! i) \<or> is_nan (test ! i)" for i
  proof -
    from that have "is_nan (f_sub fp (ref ! i) (test ! i))"
      by (rule assms(1))
    then have "is_nan (f_abs fp (f_sub fp (ref ! i) (test ! i)))"
      by (rule assms(2))
    then show ?thesis
      by (rule assms(3))
  qed
  have "verify_results fp ref test n tol = Some (True, [])"
    if "\<forall>i<n. is_nan (ref ! i) \<or> is_nan (test ! i)"
    unfolding verify_results_def
    using assms(4,5) that skip by (intro verify_loop_pass) simp_all
  with skip show ?thesis
    by blast
qed

theorem verify_results_ignores_nan_witness:
  "(2::nat) \<le> length [NaN, NaN] \<and> (2::nat) \<le> length [NaN, b32_of_rat 1]
   \<and> verify_results ieee32 [NaN, NaN] [NaN, b32_of_rat 1] 2 (b32_of_rat (1 / 1000))
       = Some (True, [])
   \<and> \<not> f_lt ieee32 (b32_of_rat (1 / 1000))
         (f_abs ieee32 (f_sub ieee32 ([NaN, NaN] ! 1) ([NaN, b32_of_rat 1] ! 1)))"
proof -
  have sub: "\<And>x y. x = NaN \<or> y = NaN \<Longrightarrow> f_sub ieee32 x y = NaN"
    by (simp add: ieee32_def b32_sub_nan)
  have abs: "\<And>x. x = NaN \<Longrightarrow> f_abs ieee32 x = NaN"
    by (simp add: ieee32_def)
  have cmp: "\<And>x t. x = NaN \<Longrightarrow> \<not> f_lt ieee32 t x"
    by (simp add: ieee32_def b32_lt_nan)
  have l1: "(2::nat) \<le> length [NaN, NaN]"
    by simp
  have l2: "(2::nat) \<le> length [NaN, b32_of_rat 1]"
    by simp
  have nans: "\<forall>i<2. [NaN, NaN] ! i = NaN \<or> [NaN, b32_of_rat 1] ! i = NaN"
    by (simp add: nth_Cons')
  note th = verify_results_ignores_nan [of "\<lambda>x. x = NaN" ieee32 2 "[NaN, NaN]"
      "[NaN, b32_of_rat 1]" "b32_of_rat (1 / 1000)", OF sub abs cmp l1 l2]
  from th nans have run: "verify_results ieee32 [NaN, NaN] [NaN, b32_of_rat 1] 2
      (b32_of_rat (1 / 1000)) = Some (True, [])"
    by blast
  have "(1::nat) < 2"
    by simp
  with th nans have "\<not> f_lt ieee32 (b32_of_rat (1 / 1000))
         (f_abs ieee32 (f_sub ieee32 ([NaN, NaN] ! 1) ([NaN, b32_of_rat 1] ! 1)))"
    by blast
  with l1 l2 run show ?thesis
    by blast
qed

section \<open>Constructing a descriptor\<close>

text \<open>
  C8. For a descriptor with positive \<open>head_dim\<close>, the field \<open>scale\<close> set by the constructor
  is \<^verbatim>\<open>1.0f / sqrtf((float)head_dim)\<close>, each step in single precision. The constructor has
  one path, so every descriptor gets it.
\<close>

theorem scale_inverse_sqrt:
  assumes "0 < sint d"
  shows "scale (AttentionConfig fp b h s d) =
     f_div fp (f_lit fp 1) (f_sqrt fp (f_of_int fp (sint d)))"
  by (simp add: AttentionConfig_def)

theorem scale_inverse_sqrt_witness:
  "0 < sint (64 :: 32 word)
   \<and> scale (AttentionConfig ieee32 1 8 256 64) = Finite False (1 / 8)
   \<and> 0 < sint (128 :: 32 word)
   \<and> scale (AttentionConfig ieee32 1 8 256 128) = Finite False (11863283 / 134217728)"
proof -
  have p64: "0 < sint (64 :: 32 word)" by simp
  have p128: "0 < sint (128 :: 32 word)" by simp
  have e64: "f_div ieee32 (f_lit ieee32 1) (f_sqrt ieee32 (f_of_int ieee32 (sint (64 :: 32 word))))
      = Finite False (1 / 8)"
    by code_simp
  have e128: "f_div ieee32 (f_lit ieee32 1) (f_sqrt ieee32 (f_of_int ieee32 (sint (128 :: 32 word))))
      = Finite False (11863283 / 134217728)"
    by code_simp
  show ?thesis
    using p64 p128 e64 e128 scale_inverse_sqrt [OF p64, of ieee32 1 8 256]
      scale_inverse_sqrt [OF p128, of ieee32 1 8 256]
    by simp
qed

section \<open>Derived metrics\<close>





section \<open>The report\<close>

text \<open>
  C6. The last line of the report is \<^verbatim>\<open>Memory-bound: YES\<close> exactly when the computed
  arithmetic intensity, the operation count divided by the bytes, compares below \<open>10\<close>,
  and \<^verbatim>\<open>Memory-bound: NO\<close> exactly when it does not.
\<close>

theorem memory_bound_line:
  "(suffix ''Memory-bound: YES\<newline>'' (print_stats fp name time_ms cfg)
      \<longleftrightarrow> f_lt fp (f_div fp (flops fp cfg) (bytes fp cfg)) (f_of_int fp 10))
   \<and> (suffix ''Memory-bound: NO\<newline>'' (print_stats fp name time_ms cfg)
      \<longleftrightarrow> \<not> f_lt fp (f_div fp (flops fp cfg) (bytes fp cfg)) (f_of_int fp 10))"
proof -
  define body where "body =
     (''\<newline>=== '' @ name @ '' ===\<newline>'')
     @ (''Time: '' @ f_fmt fp 3 time_ms @ '' ms\<newline>'')
     @ (''GFLOPS: '' @ f_fmt fp 2 (gflops fp time_ms cfg) @ ''\<newline>'')
     @ (''Bandwidth: '' @ f_fmt fp 2 (bandwidth_gb fp time_ms cfg) @ '' GB/s\<newline>'')
     @ (''Arithmetic Intensity: '' @ f_fmt fp 2 (arithmetic_intensity fp cfg)
          @ '' FLOP/Byte\<newline>'')"
  have shape: "print_stats fp name time_ms cfg =
      body @ (if f_lt fp (f_div fp (flops fp cfg) (bytes fp cfg)) (f_of_int fp 10)
              then ''Memory-bound: YES\<newline>'' else ''Memory-bound: NO\<newline>'')"
    by (simp add: print_stats_def body_def arithmetic_intensity_def)
  have yes_no: "\<not> suffix ''Memory-bound: YES\<newline>'' (body @ ''Memory-bound: NO\<newline>'')"
    by (simp add: suffix_def)
  have no_yes: "\<not> suffix ''Memory-bound: NO\<newline>'' (body @ ''Memory-bound: YES\<newline>'')"
    by (simp add: suffix_def)
  show ?thesis
    unfolding shape using yes_no no_yes by (simp add: suffix_appendI)
qed

section \<open>Rounding is monotone\<close>

lemma pow2_powi: "pow2 e = 2 powi e"
  by (simp add: pow2_def power_int_def inverse_eq_divide power_one_over)

lemma pow2_pos: "0 < pow2 e"
  by (simp add: pow2_powi)

lemma pow2_add: "pow2 (a + b) = pow2 a * pow2 b"
  by (simp add: pow2_powi power_int_add)

lemma pow2_mono: "a \<le> b \<Longrightarrow> pow2 a \<le> pow2 b"
  by (simp add: pow2_powi power_int_increasing)

lemma pow2_nat: "pow2 (int n) = 2 ^ n"
  by (simp add: pow2_def)

lemma bit_length_nonneg: "0 \<le> bit_length p"
proof (induction p rule: bit_length.induct)
  case (1 n)
  then show ?case
    by (subst bit_length.simps) simp
qed

lemma bit_length_pos: "0 < p \<Longrightarrow> 0 < bit_length p"
  using bit_length_nonneg [of "p div 2"] by (subst bit_length.simps) simp

lemma bit_length_bounds:
  "0 < p \<Longrightarrow> 2 ^ nat (bit_length p - 1) \<le> p \<and> p < 2 ^ nat (bit_length p)"
proof (induction p rule: bit_length.induct)
  case (1 n)
  show ?case
  proof (cases "n = 1")
    case True
    have "bit_length 1 = 1"
      by (subst bit_length.simps, subst bit_length.simps) simp
    with True show ?thesis by simp
  next
    case False
    with "1.prems" have half: "0 < n div 2" by simp
    with "1.IH" "1.prems" have ih: "2 ^ nat (bit_length (n div 2) - 1) \<le> n div 2"
      "n div 2 < 2 ^ nat (bit_length (n div 2))"
      by simp_all
    have bl: "bit_length n = 1 + bit_length (n div 2)"
      using "1.prems" by (subst bit_length.simps) simp
    have pos: "0 < bit_length (n div 2)"
      using half by (rule bit_length_pos)
    have e1: "nat (bit_length n - 1) = Suc (nat (bit_length (n div 2) - 1))"
      using pos bl by simp
    have e2: "nat (bit_length n) = Suc (nat (bit_length (n div 2)))"
      using pos bl by simp
    from ih show ?thesis
      unfolding e1 e2 by simp linarith
  qed
qed

lemma ilog2_bounds:
  assumes "0 < q"
  shows "pow2 (ilog2 q) \<le> q \<and> q < pow2 (ilog2 q + 1)"
proof -
  obtain p d where pd: "quotient_of q = (p, d)"
    by (cases "quotient_of q")
  then have d: "0 < d" and q: "q = of_int p / of_int d"
    by (auto dest: quotient_of_denom_pos quotient_of_div)
  from assms d q have p: "0 < p"
    by (simp add: zero_less_divide_iff)
  define bp where "bp = bit_length p"
  define bd where "bd = bit_length d"
  have bp: "0 < bp" and bd: "0 < bd"
    using p d by (simp_all add: bp_def bd_def bit_length_pos)
  have int_pow: "pow2 k = of_int (2 ^ nat k)" if "0 \<le> k" for k
    using that by (simp add: pow2_def)
  from bit_length_bounds [OF p] have "2 ^ nat (bp - 1) \<le> p" and "p < 2 ^ nat bp"
    by (simp_all only: bp_def)
  then have p1: "pow2 (bp - 1) \<le> of_int p" and p2: "of_int p < pow2 bp"
    using bp by (simp_all only: int_pow of_int_le_iff of_int_less_iff)
  from bit_length_bounds [OF d] have "2 ^ nat (bd - 1) \<le> d" and "d < 2 ^ nat bd"
    by (simp_all only: bd_def)
  then have d1: "pow2 (bd - 1) \<le> of_int d" and d2: "of_int d < pow2 bd"
    using bd by (simp_all only: int_pow of_int_le_iff of_int_less_iff)
  have dpos: "(0::rat) < of_int d"
    using d by simp
  have lower: "pow2 (bp - bd - 1) < q"
  proof -
    have "pow2 (bp - bd - 1) * of_int d < pow2 (bp - bd - 1) * pow2 bd"
      using d2 pow2_pos by (intro mult_strict_left_mono) simp_all
    also have "\<dots> = pow2 (bp - 1)"
      by (simp flip: pow2_add)
    also have "\<dots> \<le> of_int p"
      by (rule p1)
    finally show ?thesis
      unfolding q using dpos by (simp add: pos_less_divide_eq)
  qed
  have upper: "q < pow2 (bp - bd + 1)"
  proof -
    have "of_int p < pow2 bp"
      by (rule p2)
    also have "\<dots> = pow2 (bp - bd + 1) * pow2 (bd - 1)"
      by (simp flip: pow2_add)
    also have "\<dots> \<le> pow2 (bp - bd + 1) * of_int d"
      using d1 pow2_pos by (intro mult_left_mono) (simp_all add: less_imp_le)
    finally show ?thesis
      unfolding q using dpos by (simp add: pos_divide_less_eq)
  qed
  have il: "ilog2 q = (if pow2 (bp - bd) \<le> q then bp - bd else bp - bd - 1)"
    by (simp add: ilog2_def pd bp_def bd_def Let_def)
  show ?thesis
  proof (cases "pow2 (bp - bd) \<le> q")
    case True
    with upper il show ?thesis by simp
  next
    case False
    with lower il show ?thesis by (simp add: less_imp_le)
  qed
qed

lemma ilog2_mono:
  assumes "0 < a" "a \<le> b"
  shows "ilog2 a \<le> ilog2 b"
proof (rule ccontr)
  assume "\<not> ilog2 a \<le> ilog2 b"
  then have "ilog2 b + 1 \<le> ilog2 a"
    by simp
  then have "pow2 (ilog2 b + 1) \<le> pow2 (ilog2 a)"
    by (rule pow2_mono)
  also have "\<dots> \<le> a"
    using ilog2_bounds [OF assms(1)] by simp
  also have "\<dots> \<le> b"
    by (rule assms(2))
  finally show False
    using ilog2_bounds [of b] assms by simp
qed

lemma round_half_even_cases:
  "round_half_even x = \<lfloor>x\<rfloor> \<or> round_half_even x = \<lfloor>x\<rfloor> + 1"
  by (simp add: round_half_even_def Let_def)

lemma round_half_even_ge:
  assumes "of_int n \<le> x"
  shows "n \<le> round_half_even x"
proof -
  from assms have "n \<le> \<lfloor>x\<rfloor>"
    by (simp add: le_floor_iff)
  then show ?thesis
    using round_half_even_cases [of x] by auto
qed

lemma round_half_even_le:
  assumes "x \<le> of_int n"
  shows "round_half_even x \<le> n"
proof (cases "x = of_int n")
  case True
  then show ?thesis
    by (simp add: round_half_even_def)
next
  case False
  with assms have "x < of_int n" by simp
  then have "\<lfloor>x\<rfloor> < n"
    by (simp add: floor_less_iff)
  then show ?thesis
    using round_half_even_cases [of x] by auto
qed

lemma round_half_even_mono:
  assumes "x \<le> y"
  shows "round_half_even x \<le> round_half_even y"
proof (cases "\<lfloor>x\<rfloor> = \<lfloor>y\<rfloor>")
  case True
  from assms have "x - of_int \<lfloor>x\<rfloor> \<le> y - of_int \<lfloor>x\<rfloor>"
    by simp
  then show ?thesis
    using True by (auto simp: round_half_even_def Let_def)
next
  case False
  with assms have "\<lfloor>x\<rfloor> < \<lfloor>y\<rfloor>"
    using floor_mono [OF assms] by simp
  then show ?thesis
    using round_half_even_cases [of x] round_half_even_cases [of y] by auto
qed

lemma round_mag_nonneg: "0 \<le> m \<Longrightarrow> 0 \<le> round_mag m"
proof -
  assume m: "0 \<le> m"
  show ?thesis
  proof (cases "m = 0")
    case True
    then show ?thesis by (simp add: round_mag_def)
  next
    case False
    define u where "u = pow2 (max (ilog2 m) (- 126) - 23)"
    have u: "0 < u" by (simp add: u_def pow2_pos)
    with m have "of_int 0 \<le> m / u" by simp
    then have "0 \<le> round_half_even (m / u)"
      by (rule round_half_even_ge)
    with u False show ?thesis
      by (simp add: round_mag_def Let_def u_def [symmetric])
  qed
qed

text \<open>In its binade, a magnitude rounds to a value between the binade's ends.\<close>

lemma round_mag_binade:
  assumes "0 < m"
  defines "e \<equiv> max (ilog2 m) (- 126)"
  shows "round_mag m \<le> pow2 (e + 1)"
    and "ilog2 m = e \<Longrightarrow> pow2 e \<le> round_mag m"
proof -
  define u where "u = pow2 (e - 23)"
  have u: "0 < u" by (simp add: u_def pow2_pos)
  have rm: "round_mag m = of_int (round_half_even (m / u)) * u"
    using assms by (simp add: round_mag_def Let_def u_def)
  have top: "pow2 (e + 1) = of_int (2 ^ 24) * u"
  proof -
    have "pow2 (e + 1) = pow2 (24 + (e - 23))"
      by (rule arg_cong [where f = pow2]) simp
    also have "\<dots> = pow2 24 * pow2 (e - 23)"
      by (rule pow2_add)
    finally show ?thesis
      by (simp add: u_def pow2_def)
  qed
  have bot: "pow2 e = of_int (2 ^ 23) * u"
  proof -
    have "pow2 e = pow2 (23 + (e - 23))"
      by (rule arg_cong [where f = pow2]) simp
    also have "\<dots> = pow2 23 * pow2 (e - 23)"
      by (rule pow2_add)
    finally show ?thesis
      by (simp add: u_def pow2_def)
  qed
  have "m < pow2 (ilog2 m + 1)"
    using ilog2_bounds [OF assms(1)] by simp
  also have "\<dots> \<le> pow2 (e + 1)"
    by (rule pow2_mono) (simp add: e_def)
  finally have "m / u \<le> of_int (2 ^ 24)"
    unfolding top using u by (simp add: pos_divide_le_eq less_imp_le)
  then have "round_half_even (m / u) \<le> 2 ^ 24"
    by (rule round_half_even_le)
  then have "(of_int (round_half_even (m / u)) :: rat) \<le> of_int (2 ^ 24)"
    by (simp only: of_int_le_iff)
  then show "round_mag m \<le> pow2 (e + 1)"
    unfolding rm top using u by (intro mult_right_mono) simp_all
  show "pow2 e \<le> round_mag m" if "ilog2 m = e"
  proof -
    have "pow2 e \<le> m"
      using ilog2_bounds [OF assms(1)] that by simp
    then have "of_int (2 ^ 23) \<le> m / u"
      unfolding bot using u by (simp add: pos_le_divide_eq)
    then have "2 ^ 23 \<le> round_half_even (m / u)"
      by (rule round_half_even_ge)
    then have "(of_int (2 ^ 23) :: rat) \<le> of_int (round_half_even (m / u))"
      by (simp only: of_int_le_iff)
    then show ?thesis
      unfolding rm bot using u by (intro mult_right_mono) simp_all
  qed
qed

lemma round_mag_mono:
  assumes "0 \<le> a" "a \<le> b"
  shows "round_mag a \<le> round_mag b"
proof (cases "a = 0")
  case True
  with assms show ?thesis
    using round_mag_nonneg [of b] by (simp add: round_mag_def)
next
  case False
  with assms have a: "0 < a" and b: "0 < b"
    by simp_all
  define ea where "ea = max (ilog2 a) (- 126)"
  define eb where "eb = max (ilog2 b) (- 126)"
  have le: "ea \<le> eb"
    using ilog2_mono [OF a assms(2)] by (simp add: ea_def eb_def)
  show ?thesis
  proof (cases "ea = eb")
    case True
    define u where "u = pow2 (ea - 23)"
    have u: "0 < u" by (simp add: u_def pow2_pos)
    have ra: "round_mag a = of_int (round_half_even (a / u)) * u"
      using a by (simp add: round_mag_def Let_def u_def ea_def)
    have rb: "round_mag b = of_int (round_half_even (b / u)) * u"
      using b True by (simp add: round_mag_def Let_def u_def eb_def)
    have "a / u \<le> b / u"
      using assms(2) u by (simp add: divide_right_mono)
    then have "round_half_even (a / u) \<le> round_half_even (b / u)"
      by (rule round_half_even_mono)
    then have "(of_int (round_half_even (a / u)) :: rat) \<le> of_int (round_half_even (b / u))"
      by (simp only: of_int_le_iff)
    then show ?thesis
      unfolding ra rb using u by (intro mult_right_mono) simp_all
  next
    case False
    with le have lt: "ea + 1 \<le> eb"
      by simp
    then have "ilog2 b = eb"
      by (auto simp: ea_def eb_def max_def split: if_splits)
    then have "pow2 eb \<le> round_mag b"
      using round_mag_binade(2) [OF b] by (simp add: eb_def)
    moreover have "round_mag a \<le> pow2 (ea + 1)"
      using round_mag_binade(1) [OF a] by (simp add: ea_def)
    moreover have "pow2 (ea + 1) \<le> pow2 eb"
      using lt by (rule pow2_mono)
    ultimately show ?thesis
      by simp
  qed
qed

section \<open>The random fill\<close>

lemma init_loop_eq:
  assumes "i \<le> n" "n \<le> length data"
  shows "init_loop fp lib n i (data, st) =
    Some (take i data @ map (random_element fp (c_RAND_MAX lib)) (fst (draws lib (n - i) st))
            @ drop n data,
          snd (draws lib (n - i) st))"
  using assms
proof (induction "n - i" arbitrary: i data st)
  case 0
  then have "i = n" by simp
  then show ?case
    by (subst init_loop.simps) simp
next
  case (Suc k)
  then have i: "i < n" "i < length data" and k: "k = n - (i + 1)" and ni: "n - i = Suc k"
    by simp_all
  obtain r st' where r: "c_rand lib st = (r, st')"
    by (cases "c_rand lib st")
  obtain rs st'' where rs: "draws lib k st' = (rs, st'')"
    by (cases "draws lib k st'")
  let ?x = "random_element fp (c_RAND_MAX lib) r"
  have "init_loop fp lib n i (data, st) = init_loop fp lib n (i + 1) (data[i := ?x], st')"
    using i r by (subst init_loop.simps) simp
  also have "\<dots> = Some (take (i + 1) (data[i := ?x])
      @ map (random_element fp (c_RAND_MAX lib)) (fst (draws lib (n - (i + 1)) st'))
      @ drop n (data[i := ?x]), snd (draws lib (n - (i + 1)) st'))"
    using i Suc.prems k by (intro Suc.hyps) simp_all
  also have "take (i + 1) (data[i := ?x]) = take i data @ [?x]"
    using i by (simp add: take_Suc_conv_app_nth)
  also have "drop n (data[i := ?x]) = drop n data"
    using i by simp
  finally show ?case
    using r rs k by (simp add: ni)
qed

lemma length_draws: "length (fst (draws lib k st)) = k"
proof (induction k arbitrary: st)
  case 0
  show ?case by simp
next
  case (Suc k)
  obtain r st' where r: "c_rand lib st = (r, st')"
    by (cases "c_rand lib st")
  obtain rs st'' where rs: "draws lib k st' = (rs, st'')"
    by (cases "draws lib k st'")
  from Suc [of st'] r rs show ?case
    by simp
qed

lemma draws_range:
  assumes "\<And>st. 0 \<le> fst (c_rand lib st) \<and> fst (c_rand lib st) \<le> c_RAND_MAX lib"
  shows "\<forall>r \<in> set (fst (draws lib k st)). 0 \<le> r \<and> r \<le> c_RAND_MAX lib"
proof (induction k arbitrary: st)
  case 0
  show ?case by simp
next
  case (Suc k)
  obtain r st' where r: "c_rand lib st = (r, st')"
    by (cases "c_rand lib st")
  with assms [of st] have "0 \<le> r \<and> r \<le> c_RAND_MAX lib"
    by simp
  with Suc [of st'] r show ?case
    by (auto split: prod.splits)
qed

lemma pack_finite:
  assumes "0 \<le> m" "m \<le> b" "round_mag b < 2 ^ 128"
  shows "pack s m = Finite s (round_mag m) \<and> 0 \<le> round_mag m \<and> round_mag m \<le> round_mag b"
proof -
  have le: "round_mag m \<le> round_mag b"
    using assms(1,2) by (rule round_mag_mono)
  with assms(3) have "\<not> 2 ^ 128 \<le> round_mag m"
    by simp
  with le round_mag_nonneg [OF assms(1)] show ?thesis
    by (simp add: pack_def Let_def)
qed

lemma round_mag_consts:
  "round_mag 1 = 1"
  "round_mag (1 / 2) = 1 / 2"
  "round_mag (13421773 / 268435456) = 13421773 / 268435456"
  "round_mag 2147483647 = 2147483648"
  "b32_of_rat (1 / 2) = Finite False (1 / 2)"
  "b32_of_rat (1 / 10) = Finite False (13421773 / 134217728)"
  by code_simp+

lemma b32_of_int_range:
  assumes "0 \<le> r" "r \<le> 2147483647"
  shows "b32_of_int r = Finite False (round_mag (of_int r))"
proof -
  have "(of_int r :: rat) \<le> 2147483647"
    using assms(2) by (simp flip: of_int_numeral only: of_int_le_iff)
  moreover have "(0 :: rat) \<le> of_int r"
    using assms(1) by simp
  ultimately have "pack False (of_int r) = Finite False (round_mag (of_int r))"
    using pack_finite [of "of_int r" 2147483647 False] by (simp add: round_mag_consts)
  moreover have "\<not> (of_int r :: rat) < 0" "\<bar>of_int r :: rat\<bar> = of_int r"
    using assms(1) by simp_all
  ultimately show ?thesis
    by (simp add: b32_of_int_def b32_of_rat_def)
qed

lemma random_element_range:
  assumes "0 \<le> r" "r \<le> rand_max" "0 < rand_max" "rand_max \<le> 2147483647"
  shows "\<exists>s m. random_element ieee32 rand_max r = Finite s m \<and> 0 \<le> m
    \<and> m \<le> 13421773 / 268435456"
proof -
  define a where "a = round_mag (of_int r)"
  define M where "M = round_mag (of_int rand_max)"
  have A: "b32_of_int r = Finite False a"
    unfolding a_def using assms by (intro b32_of_int_range) simp_all
  have B: "b32_of_int rand_max = Finite False M"
    unfolding M_def using assms by (intro b32_of_int_range) simp_all
  have a0: "0 \<le> a"
    unfolding a_def using assms(1) by (intro round_mag_nonneg) simp
  have aM: "a \<le> M"
    unfolding a_def M_def using assms(1,2) by (intro round_mag_mono) simp_all
  have "round_mag 1 \<le> M"
    unfolding M_def using assms(3) by (intro round_mag_mono) simp_all
  then have M: "0 < M"
    by (simp add: round_mag_consts)
  define x where "x = round_mag (a / M)"
  have "0 \<le> a / M" "a / M \<le> 1"
    using a0 aM M by simp_all
  then have X: "pack False (a / M) = Finite False x" and x: "0 \<le> x" "x \<le> 1"
    using pack_finite [of "a / M" 1 False] by (simp_all add: round_mag_consts x_def)
  have D: "b32_div (b32_of_int r) (b32_of_int rand_max) = Finite False x"
    using M X by (simp add: A B)
  define v where "v = x - 1 / 2"
  have v: "\<bar>v\<bar> \<le> 1 / 2"
    using x unfolding v_def by linarith
  have "\<exists>s y. b32_sub (Finite False x) (Finite False (1 / 2)) = Finite s y \<and> 0 \<le> y \<and> y \<le> 1 / 2"
  proof (cases "v = 0")
    case True
    then have "b32_sub (Finite False x) (Finite False (1 / 2)) = Finite False 0"
      by (simp add: b32_sub_def signed_val_def v_def)
    then show ?thesis
      by auto
  next
    case False
    have "pack (v < 0) \<bar>v\<bar> = Finite (v < 0) (round_mag \<bar>v\<bar>) \<and> 0 \<le> round_mag \<bar>v\<bar>
        \<and> round_mag \<bar>v\<bar> \<le> round_mag (1 / 2)"
      using v by (intro pack_finite) (simp_all add: round_mag_consts)
    with False have "b32_sub (Finite False x) (Finite False (1 / 2))
        = Finite (v < 0) (round_mag \<bar>v\<bar>)"
      by (simp add: b32_sub_def signed_val_def v_def [symmetric] Let_def)
    with \<open>pack (v < 0) \<bar>v\<bar> = _ \<and> _\<close> show ?thesis
      by (auto simp: round_mag_consts)
  qed
  then obtain s y where S: "b32_sub (Finite False x) (Finite False (1 / 2)) = Finite s y"
    and y: "0 \<le> y" "y \<le> 1 / 2"
    by blast
  define c :: rat where "c = 13421773 / 134217728"
  have "0 \<le> y * c" "y * c \<le> 13421773 / 268435456"
    using y by (simp_all add: c_def)
  then have "pack s (y * c) = Finite s (round_mag (y * c)) \<and> 0 \<le> round_mag (y * c)
      \<and> round_mag (y * c) \<le> 13421773 / 268435456"
    using pack_finite [of "y * c" "13421773 / 268435456" s] by (simp add: round_mag_consts)
  then have "b32_mul (Finite s y) (Finite False c) = Finite s (round_mag (y * c))
      \<and> 0 \<le> round_mag (y * c) \<and> round_mag (y * c) \<le> 13421773 / 268435456"
    by simp
  then show ?thesis
    by (simp add: random_element_def ieee32_def D S round_mag_consts c_def)
qed

lemma glibc_rand_range: "0 \<le> fst (glibc_rand st) \<and> fst (glibc_rand st) \<le> 2147483647"
proof -
  obtain state f r where st: "st = (state, f, r)"
    by (cases st)
  define v where "v = (state ! f + state ! r) mod 2 ^ 32"
  have "0 \<le> v" "v < 2 ^ 32"
    by (simp_all add: v_def)
  then have "0 \<le> v div 2 \<and> v div 2 \<le> 2147483647"
    by simp
  then show ?thesis
    by (simp add: glibc_rand_def st Let_def v_def)
qed

lemma interval_ends:
  "f_lit ieee32 (5 / 100) = Finite False (13421773 / 268435456)"
  "f_lit ieee32 (- (5 / 100)) = Finite True (13421773 / 268435456)"
  by code_simp+

lemma within_interval:
  assumes "0 \<le> m" "m \<le> 13421773 / 268435456"
  shows "\<not> f_lt ieee32 (Finite s m) (f_lit ieee32 (- (5 / 100)))
    \<and> \<not> f_lt ieee32 (f_lit ieee32 (5 / 100)) (Finite s m)"
  unfolding interval_ends using assms by (simp add: ieee32_def signed_val_def)

text \<open>
  C10, in the arithmetic of the code (binary32) and for every C library whose \<^verbatim>\<open>rand\<close>
  returns values from \<open>0\<close> to \<^verbatim>\<open>RAND_MAX\<close> (a positive \<^verbatim>\<open>int\<close>). For a buffer that holds at
  least \<open>n\<close> elements, \<open>init_random\<close> returns, and each of the \<open>n\<close> elements it writes is
  a finite number \<open>x\<close> in the closed interval from \<^verbatim>\<open>-0.05f\<close> to \<^verbatim>\<open>0.05f\<close>: neither
  \<^verbatim>\<open>x < -0.05f\<close> nor \<^verbatim>\<open>0.05f < x\<close> holds, and its magnitude is between \<open>0\<close> and
  \<open>13421773 / 2 ^ 28\<close>, the single-precision value of the literal \<open>0.05\<close>. The \<open>n\<close>
  elements and the state the generator is left in are the same for every earlier content of
  the buffer and every earlier state of the generator: they depend on \<open>n\<close> and the seed
  only, so two calls with the same \<open>n\<close> and seed write identical buffers.
\<close>

theorem init_random_range_deterministic:
  assumes "\<And>st. 0 \<le> fst (c_rand lib st) \<and> fst (c_rand lib st) \<le> c_RAND_MAX lib"
    and "0 < c_RAND_MAX lib" and "c_RAND_MAX lib \<le> 2147483647"
    and "n \<le> length data" and "n \<le> length data'"
  shows "\<exists>out out' st'.
      init_random ieee32 lib (data, st0) n seed = Some (out, st')
    \<and> init_random ieee32 lib (data', st0') n seed = Some (out', st')
    \<and> take n out' = take n out
    \<and> (\<forall>i<n. (\<exists>s m. out ! i = Finite s m \<and> 0 \<le> m \<and> m \<le> 13421773 / 268435456)
          \<and> \<not> f_lt ieee32 (out ! i) (f_lit ieee32 (- (5 / 100)))
          \<and> \<not> f_lt ieee32 (f_lit ieee32 (5 / 100)) (out ! i))"
proof -
  define rs where "rs = fst (draws lib n (c_srand lib seed))"
  define st' where "st' = snd (draws lib n (c_srand lib seed))"
  define vs where "vs = map (random_element ieee32 (c_RAND_MAX lib)) rs"
  have len: "length vs = n"
    by (simp add: vs_def rs_def length_draws)
  have run: "init_random ieee32 lib (d, s0) n seed = Some (vs @ drop n d, st')"
    if "n \<le> length d" for d s0
    using that init_loop_eq [of 0 n d ieee32 lib "c_srand lib seed"]
    by (simp add: init_random_def vs_def rs_def st'_def)
  have "(\<exists>s m. (vs @ drop n data) ! i = Finite s m \<and> 0 \<le> m \<and> m \<le> 13421773 / 268435456)
      \<and> \<not> f_lt ieee32 ((vs @ drop n data) ! i) (f_lit ieee32 (- (5 / 100)))
      \<and> \<not> f_lt ieee32 (f_lit ieee32 (5 / 100)) ((vs @ drop n data) ! i)" if "i < n" for i
  proof -
    from that have "rs ! i \<in> set rs"
      by (simp add: rs_def length_draws)
    with draws_range [OF assms(1), of n "c_srand lib seed"]
    have "0 \<le> rs ! i \<and> rs ! i \<le> c_RAND_MAX lib"
      by (simp add: rs_def)
    then have "\<exists>s m. random_element ieee32 (c_RAND_MAX lib) (rs ! i) = Finite s m
        \<and> 0 \<le> m \<and> m \<le> 13421773 / 268435456"
      using assms(2,3) by (intro random_element_range) simp_all
    moreover have "(vs @ drop n data) ! i = random_element ieee32 (c_RAND_MAX lib) (rs ! i)"
      using that len by (simp add: nth_append vs_def rs_def length_draws)
    ultimately obtain s m where x: "(vs @ drop n data) ! i = Finite s m"
      and m: "0 \<le> m" "m \<le> 13421773 / 268435456"
      by auto
    from within_interval [OF m, of s] x m show ?thesis
      by simp
  qed
  moreover have "take n (vs @ drop n data') = take n (vs @ drop n data)"
    using len by simp
  ultimately show ?thesis
    using run [OF assms(4), of st0] run [OF assms(5), of st0'] by blast
qed

theorem init_random_range_deterministic_witness:
  "(2::nat) \<le> length [Finite False 0, NaN, NaN] \<and> (2::nat) \<le> length [NaN, NaN]
   \<and> 0 < c_RAND_MAX glibc \<and> c_RAND_MAX glibc \<le> 2147483647
   \<and> map_option fst (init_random ieee32 glibc ([Finite False 0, NaN, NaN], ([], 0, 0)) 2 42)
       = Some [Finite True (12523321 / 268435456), Finite True (9128727 / 536870912), NaN]
   \<and> map_option fst (init_random ieee32 glibc ([NaN, NaN], ([1], 0, 0)) 2 42)
       = Some [Finite True (12523321 / 268435456), Finite True (9128727 / 536870912)]"
proof -
  have rng: "\<And>st. 0 \<le> fst (c_rand glibc st) \<and> fst (c_rand glibc st) \<le> c_RAND_MAX glibc"
    using glibc_rand_range by (simp add: glibc_def)
  have h2: "0 < c_RAND_MAX glibc" and h3: "c_RAND_MAX glibc \<le> 2147483647"
    by (simp_all add: glibc_def)
  have l1: "(2::nat) \<le> length [Finite False 0, NaN, NaN]" and l2: "(2::nat) \<le> length [NaN, NaN]"
    by simp_all
  have e1: "map_option fst (init_random ieee32 glibc ([Finite False 0, NaN, NaN], ([], 0, 0)) 2 42)
       = Some [Finite True (12523321 / 268435456), Finite True (9128727 / 536870912), NaN]"
    by code_simp
  from init_random_range_deterministic [OF rng h2 h3 l1 l2, of "([], 0, 0)" 42 "([1], 0, 0)"]
  obtain out out' st' where
    o1: "init_random ieee32 glibc ([Finite False 0, NaN, NaN], ([], 0, 0)) 2 42 = Some (out, st')"
    and o2: "init_random ieee32 glibc ([NaN, NaN], ([1], 0, 0)) 2 42 = Some (out', st')"
    and eq: "take 2 out' = take 2 out"
    by blast
  from o1 e1 have out: "out = [Finite True (12523321 / 268435456), Finite True (9128727 / 536870912), NaN]"
    by simp
  have "init_random ieee32 glibc ([NaN, NaN], ([1], 0, 0)) 2 42 =
      Some (take 0 [NaN, NaN] @ map (random_element ieee32 (c_RAND_MAX glibc))
             (fst (draws glibc (2 - 0) (c_srand glibc 42))) @ drop 2 [NaN, NaN],
            snd (draws glibc (2 - 0) (c_srand glibc 42)))"
    unfolding init_random_def fst_conv by (rule init_loop_eq) simp_all
  with o2 have "length out' = 2"
    by (auto simp: length_draws)
  with eq out have "out' = [Finite True (12523321 / 268435456), Finite True (9128727 / 536870912)]"
    by simp
  with o2 e1 l1 l2 h2 h3 show ?thesis
    by simp
qed

text \<open>
  Both ends of the interval are reached. With glibc, the first value after
  \<^verbatim>\<open>srand(55838673)\<close> is \<open>24\<close>, and the element written is \<^verbatim>\<open>-0.05f\<close>; the first value after
  \<^verbatim>\<open>srand(22100322)\<close> is \<open>2147483636\<close>, and the element written is \<^verbatim>\<open>0.05f\<close>.
\<close>

lemma init_random_reaches_ends:
  "map_option fst (init_random ieee32 glibc ([Finite False 0], ([], 0, 0)) 1 55838673)
       = Some [f_lit ieee32 (- (5 / 100))]
   \<and> map_option fst (init_random ieee32 glibc ([Finite False 0], ([], 0, 0)) 1 22100322)
       = Some [f_lit ieee32 (5 / 100)]"
  by code_simp

end
